theory Spec2Isabelle
  imports Complex_Main "HOL-Library.Char_ord" "HOL-Library.List_Lexorder"
    "HOL-Library.Product_Lexorder" "HOL-Library.AList"
begin

section \<open>Errors\<close>

text \<open>
  The exceptions the module raises, as values. A function of the source that can raise
  returns \<open>error + 'a\<close>, with \<open>Inl\<close> for the exception.
\<close>

datatype error = AssertionError | ValueError | KeyError | IndexError | TypeError | OverflowError

section \<open>Configuration count resolution\<close>

text \<open>
  \<^verbatim>\<open>_get_config_num(n_jobs, n_configs, n_total_configs)\<close>. The host's CPU count
  (\<^verbatim>\<open>multiprocessing.cpu_count()\<close>) is the parameter \<open>n_cpus\<close>. Python's
  integers are unbounded, hence \<open>int\<close>.
\<close>

definition get_config_num :: "int \<Rightarrow> int \<Rightarrow> int \<Rightarrow> int \<Rightarrow> error + int" where
  "get_config_num n_cpus n_jobs n_configs n_total_configs =
     (if n_jobs = 0 \<or> n_configs = 0 \<or> n_configs < - 2 then Inl ValueError
      else
        let n_configs' =
          (if n_configs = - 2 then n_total_configs
           else if n_configs = - 1 then
             (if n_jobs < 0 then n_cpus + 1 + n_jobs else n_jobs)
           else n_configs)
        in if n_configs' < n_total_configs then Inr n_configs' else Inr n_total_configs)"

section \<open>Python values and tables\<close>

text \<open>
  A cell of a DataFrame is a missing value (\<^verbatim>\<open>None\<close> or NaN, what
  \<^verbatim>\<open>pd.isnull\<close> accepts), a string or an integer. Float cells are left out of
  the model: their formatting and rounding is floating point arithmetic.
\<close>

datatype cell = NaN | StrV string | IntV int

text \<open>A column's dtype is \<^verbatim>\<open>numpy.dtype('O')\<close> (\<open>Object\<close>) or a numeric one.\<close>

datatype dtype = Object | Numeric

text \<open>
  A DataFrame: the column names, the dtype of each column, the values column by column
  (\<open>col_values t ! j\<close> is column \<open>j\<close>, of length \<open>num_records t\<close>), and
  \<^verbatim>\<open>len(table)\<close>, the number of rows.
\<close>

record table =
  columns :: "string list"
  dtypes :: "dtype list"
  col_values :: "cell list list"
  num_records :: nat

text \<open>The arguments of the top-level function are arbitrary Python objects.\<close>

datatype pyobj =
    PyNone
  | PyBool bool
  | PyInt int
  | PyStr string
  | PyTuple "pyobj list"
  | PyList "pyobj list"
  | PyDataFrame table

datatype pytype = TDataFrame | TInt | TBool | TList | TTuple

text \<open>\<^verbatim>\<open>isinstance\<close>; \<^verbatim>\<open>bool\<close> is a subclass of \<^verbatim>\<open>int\<close>.\<close>

fun isinstance :: "pyobj \<Rightarrow> pytype \<Rightarrow> bool" where
  "isinstance (PyDataFrame t) T = (T = TDataFrame)"
| "isinstance (PyBool b) T = (T = TBool \<or> T = TInt)"
| "isinstance (PyInt i) T = (T = TInt)"
| "isinstance (PyList xs) T = (T = TList)"
| "isinstance (PyTuple xs) T = (T = TTuple)"
| "isinstance PyNone T = False"
| "isinstance (PyStr s) T = False"

text \<open>\<^verbatim>\<open>len(x)\<close>: a TypeError for an object without a length.\<close>

fun py_len :: "pyobj \<Rightarrow> error + nat" where
  "py_len (PyDataFrame t) = Inr (num_records t)"
| "py_len (PyList xs) = Inr (length xs)"
| "py_len (PyTuple xs) = Inr (length xs)"
| "py_len (PyStr s) = Inr (length s)"
| "py_len PyNone = Inl TypeError"
| "py_len (PyBool b) = Inl TypeError"
| "py_len (PyInt i) = Inl TypeError"

text \<open>\<^verbatim>\<open>x <= 0\<close>: a TypeError for an object that does not compare with an integer.\<close>

fun py_le_zero :: "pyobj \<Rightarrow> error + bool" where
  "py_le_zero (PyInt i) = Inr (i \<le> 0)"
| "py_le_zero (PyBool b) = Inr (\<not> b)"
| "py_le_zero x = Inl TypeError"

section \<open>Input validation\<close>

text \<open>
  Modelled from the spec: \<^verbatim>\<open>validate_object_type\<close> of
  \<^verbatim>\<open>py_entitymatching.utils.validation_helper\<close> is not among the sources. The
  docstring of \<^verbatim>\<open>debug_blocker\<close> and the spec's error taxonomy say that a wrong
  argument type is an AssertionError.
\<close>

definition validate_object_type :: "pyobj \<Rightarrow> pytype \<Rightarrow> error + unit" where
  "validate_object_type input_object expected_type =
     (if isinstance input_object expected_type then Inr () else Inl AssertionError)"

text \<open>
  The \<^verbatim>\<open>attr_corres\<close> block of \<^verbatim>\<open>_validate_types\<close>: when it is not
  \<^verbatim>\<open>None\<close> it is a list, and each element of it a tuple.
\<close>

definition validate_attr_corres :: "pyobj \<Rightarrow> error + unit" where
  "validate_attr_corres attr_corres =
     (if attr_corres = PyNone then Inr ()
      else if isinstance attr_corres TList then
        (case attr_corres of
           PyList pairs \<Rightarrow>
             (if list_ex (\<lambda>pair. isinstance pair TTuple = False) pairs
              then Inl AssertionError else Inr ())
         | _ \<Rightarrow> Inr ())
      else Inl AssertionError)"

text \<open>\<^verbatim>\<open>_validate_types\<close>: the checks in the order of the source.\<close>

definition validate_types ::
  "pyobj \<Rightarrow> pyobj \<Rightarrow> pyobj \<Rightarrow> pyobj \<Rightarrow> pyobj \<Rightarrow> pyobj \<Rightarrow> error + unit" where
  "validate_types ltable rtable candidate_set output_size attr_corres verbose =
     (case validate_object_type ltable TDataFrame of Inl e \<Rightarrow> Inl e | Inr u1 \<Rightarrow>
     (case validate_object_type rtable TDataFrame of Inl e \<Rightarrow> Inl e | Inr u2 \<Rightarrow>
     (case validate_object_type candidate_set TDataFrame of Inl e \<Rightarrow> Inl e | Inr u3 \<Rightarrow>
     (case validate_object_type output_size TInt of Inl e \<Rightarrow> Inl e | Inr u4 \<Rightarrow>
     (case validate_attr_corres attr_corres of Inl e \<Rightarrow> Inl e | Inr u5 \<Rightarrow>
      if isinstance verbose TBool then Inr () else Inl AssertionError)))))"

text \<open>
  \<^verbatim>\<open>debug_blocker\<close>, lines 102 to 117: the type validation, the two table size
  checks and the output size check. Everything from the metadata lookup on (lines 119 to
  205) is the parameter \<open>rest\<close>, which gets the same arguments.
\<close>

definition debug_blocker ::
  "(pyobj \<Rightarrow> pyobj \<Rightarrow> pyobj \<Rightarrow> pyobj \<Rightarrow> pyobj \<Rightarrow> pyobj \<Rightarrow> int \<Rightarrow> int \<Rightarrow> error + 'r)
    \<Rightarrow> pyobj \<Rightarrow> pyobj \<Rightarrow> pyobj \<Rightarrow> pyobj \<Rightarrow> pyobj \<Rightarrow> pyobj \<Rightarrow> int \<Rightarrow> int \<Rightarrow> error + 'r" where
  "debug_blocker rest candidate_set ltable rtable output_size attr_corres verbose n_jobs n_configs =
     (case validate_types ltable rtable candidate_set output_size attr_corres verbose of
        Inl e \<Rightarrow> Inl e
      | Inr u \<Rightarrow>
     (case py_len ltable of Inl e \<Rightarrow> Inl e | Inr len_l \<Rightarrow>
      if len_l = 0 then Inl AssertionError else
     (case py_len rtable of Inl e \<Rightarrow> Inl e | Inr len_r \<Rightarrow>
      if len_r = 0 then Inl AssertionError else
     (case py_le_zero output_size of Inl e \<Rightarrow> Inl e | Inr nothing_to_do \<Rightarrow>
      if nothing_to_do then Inl AssertionError
      else rest candidate_set ltable rtable output_size attr_corres verbose n_jobs n_configs))))"

section \<open>Field correspondence\<close>

text \<open>
  \<^verbatim>\<open>_get_field_correspondence_list\<close>. The correspondence of
  \<^verbatim>\<open>mg.get_attr_corres(ltable, rtable)['corres']\<close>, computed outside this module, is
  the parameter \<open>auto_corres\<close>; \<open>attr_corres\<close> is the user's list, if any. The key
  pair is appended only when the list does not hold it yet.
\<close>

definition get_field_correspondence_list ::
  "(string \<times> string) list \<Rightarrow> string \<Rightarrow> string \<Rightarrow> (string \<times> string) list option
    \<Rightarrow> error + (string \<times> string) list" where
  "get_field_correspondence_list auto_corres lkey rkey attr_corres =
     (case
        (if attr_corres = None \<or> length (the attr_corres) = 0 then
           (if length auto_corres = 0 then Inl AssertionError else Inr auto_corres)
         else Inr (the attr_corres))
      of
        Inl e \<Rightarrow> Inl e
      | Inr corres_list \<Rightarrow>
          (if (lkey, rkey) \<in> set corres_list then Inr corres_list
           else Inr (corres_list @ [(lkey, rkey)])))"

text \<open>
  \<^verbatim>\<open>_build_col_name_index_dict\<close>: a later column of the same name overwrites an
  earlier one.
\<close>

definition build_col_name_index_dict :: "table \<Rightarrow> (string \<rightharpoonup> nat)" where
  "build_col_name_index_dict t =
     fold (\<lambda>i col_dict. col_dict(columns t ! i \<mapsto> i)) [0..<length (columns t)] Map.empty"

text \<open>
  \<^verbatim>\<open>dtypes[col_dict[name]] != numpy.dtype('O')\<close>: a KeyError for a name that is not
  in the dictionary, an IndexError for an index beyond the dtype list.
\<close>

definition dtype_not_object :: "dtype list \<Rightarrow> (string \<rightharpoonup> nat) \<Rightarrow> string \<Rightarrow> error + bool" where
  "dtype_not_object table_dtypes col_dict name =
     (case col_dict name of
        None \<Rightarrow> Inl KeyError
      | Some k \<Rightarrow> if k < length table_dtypes then Inr (table_dtypes ! k \<noteq> Object)
                  else Inl IndexError)"

text \<open>\<^verbatim>\<open>list.pop(i)\<close>, for the list that remains.\<close>

definition pop :: "nat \<Rightarrow> 'a list \<Rightarrow> 'a list" where
  "pop i xs = take i xs @ drop (Suc i) xs"

text \<open>
  One iteration of the loop of \<^verbatim>\<open>_filter_corres_list\<close>, at index \<open>i\<close>. The
  right dtype is looked up only when the left one is numeric (\<^verbatim>\<open>and\<close> is
  short-circuit).
\<close>

definition filter_step ::
  "dtype list \<Rightarrow> dtype list \<Rightarrow> string \<Rightarrow> string \<Rightarrow> (string \<rightharpoonup> nat) \<Rightarrow> (string \<rightharpoonup> nat)
    \<Rightarrow> nat \<Rightarrow> (string \<times> string) list \<Rightarrow> error + (string \<times> string) list" where
  "filter_step ltable_dtypes rtable_dtypes ltable_key rtable_key ltable_col_dict rtable_col_dict
      i corres_list =
     (if i < length corres_list then
        (let lcol_name = fst (corres_list ! i); rcol_name = snd (corres_list ! i) in
         (case dtype_not_object ltable_dtypes ltable_col_dict lcol_name of
            Inl e \<Rightarrow> Inl e
          | Inr l_numeric \<Rightarrow>
              (if l_numeric then
                 (case dtype_not_object rtable_dtypes rtable_col_dict rcol_name of
                    Inl e \<Rightarrow> Inl e
                  | Inr r_numeric \<Rightarrow>
                      (if r_numeric then
                         (if lcol_name \<noteq> ltable_key \<and> rcol_name \<noteq> rtable_key
                          then Inr (pop i corres_list) else Inr corres_list)
                       else Inr corres_list))
               else Inr corres_list)))
      else Inl IndexError)"

text \<open>\<^verbatim>\<open>for i in reversed(range(n))\<close>: the indices \<open>n - 1\<close> down to \<open>0\<close>.\<close>

fun filter_loop ::
  "(nat \<Rightarrow> 'a list \<Rightarrow> error + 'a list) \<Rightarrow> nat \<Rightarrow> 'a list \<Rightarrow> error + 'a list" where
  "filter_loop step 0 corres_list = Inr corres_list"
| "filter_loop step (Suc i) corres_list =
     (case step i corres_list of
        Inl e \<Rightarrow> Inl e
      | Inr corres_list' \<Rightarrow> filter_loop step i corres_list')"

text \<open>
  \<^verbatim>\<open>_filter_corres_list\<close>. The source changes the list in place; the model returns
  the list as it is after the call.
\<close>

definition filter_corres_list ::
  "table \<Rightarrow> table \<Rightarrow> string \<Rightarrow> string \<Rightarrow> (string \<rightharpoonup> nat) \<Rightarrow> (string \<rightharpoonup> nat)
    \<Rightarrow> (string \<times> string) list \<Rightarrow> error + (string \<times> string) list" where
  "filter_corres_list ltable rtable ltable_key rtable_key ltable_col_dict rtable_col_dict
      corres_list =
     (case filter_loop
             (filter_step (dtypes ltable) (dtypes rtable) ltable_key rtable_key
                ltable_col_dict rtable_col_dict)
             (length corres_list) corres_list of
        Inl e \<Rightarrow> Inl e
      | Inr filtered \<Rightarrow>
          (if length filtered = 1 \<and> fst (filtered ! 0) = ltable_key
               \<and> snd (filtered ! 0) = rtable_key
           then Inl AssertionError else Inr filtered))"

section \<open>Strings\<close>

text \<open>
  \<^verbatim>\<open>str(n)\<close> for a natural number: its decimal digits. \<open>str_int\<close> adds the sign.
\<close>

fun str_nat :: "nat \<Rightarrow> string" where
  "str_nat n =
     (if n < 10 then [''0123456789'' ! n]
      else str_nat (n div 10) @ [''0123456789'' ! (n mod 10)])"

declare str_nat.simps [simp del]


section \<open>Feature weights and feature selection\<close>

text \<open>\<^verbatim>\<open>pd.isnull(value)\<close> on a cell.\<close>

definition isnull :: "cell \<Rightarrow> bool" where
  "isnull v = (v = NaN)"










section \<open>Candidate set index\<close>

text \<open>
  \<^verbatim>\<open>table[name]\<close>: the values of the column of that name, a KeyError when there is
  none. Column names are taken to be distinct.
\<close>

definition get_column :: "table \<Rightarrow> string \<Rightarrow> error + cell list" where
  "get_column t name =
     (case map_of (zip (columns t) (col_values t)) name of
        None \<Rightarrow> Inl KeyError
      | Some col \<Rightarrow> Inr col)"

text \<open>
  What \<^verbatim>\<open>cm.get_metadata_for_candset\<close> returns, without the two table objects.
\<close>

record candset_metadata =
  md_key :: string
  md_fk_ltable :: string
  md_fk_rtable :: string
  md_l_key :: string
  md_r_key :: string

text \<open>
  One iteration of the loop of \<^verbatim>\<open>_index_candidate_set\<close>, on the pair of foreign
  keys of row \<open>i\<close>: a pair with a key that is in neither map is skipped.
\<close>

definition add_candidate ::
  "(cell \<rightharpoonup> nat) \<Rightarrow> (cell \<rightharpoonup> nat) \<Rightarrow> cell \<times> cell \<Rightarrow> (nat \<rightharpoonup> nat set) \<Rightarrow> (nat \<rightharpoonup> nat set)" where
  "add_candidate lrecord_id_to_index_map rrecord_id_to_index_map row new_formatted_candidate_set =
     (case lrecord_id_to_index_map (fst row) of
        None \<Rightarrow> new_formatted_candidate_set
      | Some l_key_data \<Rightarrow>
          (case rrecord_id_to_index_map (snd row) of
             None \<Rightarrow> new_formatted_candidate_set
           | Some r_key_data \<Rightarrow>
               (case new_formatted_candidate_set l_key_data of
                  Some rs \<Rightarrow> new_formatted_candidate_set(l_key_data \<mapsto> insert r_key_data rs)
                | None \<Rightarrow> new_formatted_candidate_set(l_key_data \<mapsto> {r_key_data}))))"

text \<open>
  \<^verbatim>\<open>_index_candidate_set\<close>. The catalog functions
  \<^verbatim>\<open>cm.get_metadata_for_candset\<close> and \<^verbatim>\<open>cm._validate_metadata_for_candset\<close> are
  outside this module: they are the parameters \<open>get_metadata\<close> and \<open>validate_metadata\<close>,
  and each may raise. The two foreign key columns of one DataFrame have the same length,
  so the loop over the indices of the first is a loop over the rows.
\<close>

definition index_candidate_set ::
  "(table \<Rightarrow> error + candset_metadata) \<Rightarrow> (table \<Rightarrow> candset_metadata \<Rightarrow> error + unit)
    \<Rightarrow> table \<Rightarrow> (cell \<rightharpoonup> nat) \<Rightarrow> (cell \<rightharpoonup> nat) \<Rightarrow> error + (nat \<rightharpoonup> nat set)" where
  "index_candidate_set get_metadata validate_metadata candidate_set
      lrecord_id_to_index_map rrecord_id_to_index_map =
     (if num_records candidate_set = 0 then Inr Map.empty
      else
       (case get_metadata candidate_set of Inl e \<Rightarrow> Inl e | Inr md \<Rightarrow>
       (case validate_metadata candidate_set md of Inl e \<Rightarrow> Inl e | Inr u \<Rightarrow>
       (case get_column candidate_set (md_fk_ltable md) of
          Inl e \<Rightarrow> Inl e | Inr ltable_key_data \<Rightarrow>
       (case get_column candidate_set (md_fk_rtable md) of
          Inl e \<Rightarrow> Inl e | Inr rtable_key_data \<Rightarrow>
        Inr (fold (add_candidate lrecord_id_to_index_map rrecord_id_to_index_map)
               (zip ltable_key_data rtable_key_data) Map.empty))))))"

section \<open>Result assembly\<close>

text \<open>
  The DataFrame that \<^verbatim>\<open>_assemble_topk_table\<close> builds: its column labels, which are
  the positions \<open>0, 1, ...\<close> until names are assigned, and its rows.
\<close>

datatype col_label = Pos nat | Name string

record data_frame =
  df_columns :: "col_label list"
  df_rows :: "cell list list"

text \<open>
  \<^verbatim>\<open>pd.DataFrame(rows)\<close> for a list of rows of one length: as many columns as the
  rows are long, none for the empty list.
\<close>

definition pd_DataFrame :: "cell list list \<Rightarrow> data_frame" where
  "pd_DataFrame rows =
     \<lparr>df_columns = map Pos [0..<fold max (map length rows) 0], df_rows = rows\<rparr>"

text \<open>\<^verbatim>\<open>names.remove(x)\<close>: the first occurrence goes, a ValueError when there is none.\<close>

definition list_remove :: "'a \<Rightarrow> 'a list \<Rightarrow> error + 'a list" where
  "list_remove x xs = (if x \<in> set xs then Inr (remove1 x xs) else Inl ValueError)"

text \<open>The key index loops of lines 664 to 672: they start from \<open>0\<close>.\<close>

definition key_index_or_zero :: "string \<Rightarrow> string list \<Rightarrow> nat" where
  "key_index_or_zero key names =
     fold (\<lambda>i key_index. if names ! i = key then i else key_index) [0..<length names] 0"

text \<open>
  \<^verbatim>\<open>list(table.loc[i])\<close> on a table with the default index: row \<open>i\<close>, a KeyError
  when there is no such row.
\<close>

definition loc :: "table \<Rightarrow> nat \<Rightarrow> error + cell list" where
  "loc t i =
     (if i < num_records t then Inr (map (\<lambda>col. col ! i) (col_values t)) else Inl KeyError)"

text \<open>
  The loop over \<^verbatim>\<open>rec_list\<close> (here \<open>recs\<close>), from position \<open>i\<close> on. A result triple is
  \<open>(sim, l_idx, r_idx)\<close>.
\<close>

fun assemble_rows ::
  "table \<Rightarrow> table \<Rightarrow> nat \<Rightarrow> nat \<Rightarrow> nat \<Rightarrow> (rat \<times> nat \<times> nat) list \<Rightarrow> error + cell list list" where
  "assemble_rows ltable rtable lkey_index rkey_index i [] = Inr []"
| "assemble_rows ltable rtable lkey_index rkey_index i (tup # recs) =
     (case loc ltable (fst (snd tup)) of Inl e \<Rightarrow> Inl e | Inr lrecord \<Rightarrow>
     (case loc rtable (snd (snd tup)) of Inl e \<Rightarrow> Inl e | Inr rrecord \<Rightarrow>
      if lkey_index < length lrecord \<and> rkey_index < length rrecord then
        (let ret_tuple =
               [IntV (int i), lrecord ! lkey_index, rrecord ! rkey_index]
               @ map (\<lambda>j. lrecord ! j) (filter (\<lambda>j. j \<noteq> lkey_index) [0..<length lrecord])
               @ map (\<lambda>j. rrecord ! j) (filter (\<lambda>j. j \<noteq> rkey_index) [0..<length rrecord])
         in (case assemble_rows ltable rtable lkey_index rkey_index (Suc i) recs of
               Inl e \<Rightarrow> Inl e
             | Inr ret_tuple_list \<Rightarrow> Inr (ret_tuple # ret_tuple_list)))
      else Inl IndexError))"

text \<open>
  \<^verbatim>\<open>_assemble_topk_table\<close>, with the default \<^verbatim>\<open>ret_key\<close> and prefixes. The
  catalog that \<^verbatim>\<open>cm.set_candset_properties\<close> writes to is passed in and returned;
  the function itself, outside this module, is the parameter \<open>set_candset_properties\<close>.
  Assigning a list of names of another length than the number of columns is a ValueError.
\<close>

definition assemble_topk_table ::
  "(data_frame \<Rightarrow> string \<Rightarrow> string \<Rightarrow> string \<Rightarrow> table \<Rightarrow> table \<Rightarrow> 'c \<Rightarrow> error + 'c) \<Rightarrow> 'c
    \<Rightarrow> (rat \<times> nat \<times> nat) list \<Rightarrow> table \<Rightarrow> table \<Rightarrow> string \<Rightarrow> string
    \<Rightarrow> error + data_frame \<times> 'c" where
  "assemble_topk_table set_candset_properties catalog recs ltable rtable lkey rkey =
     (let lkey_index = key_index_or_zero lkey (columns ltable);
          rkey_index = key_index_or_zero rkey (columns rtable)
      in
      (case list_remove lkey (columns ltable) of Inl e \<Rightarrow> Inl e | Inr ltable_col_names \<Rightarrow>
      (case list_remove rkey (columns rtable) of Inl e \<Rightarrow> Inl e | Inr rtable_col_names \<Rightarrow>
       let ret_data_col_name_list =
             [''_id'', ''ltable_'' @ lkey, ''rtable_'' @ rkey]
             @ map (\<lambda>name. ''ltable_'' @ name) ltable_col_names
             @ map (\<lambda>name. ''rtable_'' @ name) rtable_col_names
       in
       (case assemble_rows ltable rtable lkey_index rkey_index 0 recs of
          Inl e \<Rightarrow> Inl e
        | Inr ret_tuple_list \<Rightarrow>
            (let data_frame = pd_DataFrame ret_tuple_list in
             if length (df_rows data_frame) = 0 then Inr (data_frame, catalog)
             else if length ret_data_col_name_list \<noteq> length (df_columns data_frame)
               then Inl ValueError
             else
               (let named = data_frame\<lparr>df_columns := map Name ret_data_col_name_list\<rparr> in
                (case set_candset_properties named ''_id'' (''ltable_'' @ lkey)
                        (''rtable_'' @ rkey) ltable rtable catalog of
                   Inl e \<Rightarrow> Inl e
                 | Inr catalog' \<Rightarrow> Inr (named, catalog'))))))))"

section \<open>Tokenizer\<close>

text \<open>
  \<^verbatim>\<open>s.lower()\<close> on the ASCII letters; other characters are left as they are.
\<close>

definition lower_char :: "char \<Rightarrow> char" where
  "lower_char c =
     (if CHR ''A'' \<le> c \<and> c \<le> CHR ''Z'' then char_of (of_char c + (32::nat)) else c)"

definition lower :: "string \<Rightarrow> string" where
  "lower s = map lower_char s"

text \<open>
  \<^verbatim>\<open>s.split(' ')\<close>: the pieces between single spaces, empty pieces included; the
  result is never the empty list.
\<close>

fun split_space :: "string \<Rightarrow> string list" where
  "split_space [] = [[]]"
| "split_space (c # cs) =
     (if c = CHR '' '' then [] # split_space cs
      else (case split_space cs of [] \<Rightarrow> [[c]] | w # ws \<Rightarrow> (c # w) # ws))"

text \<open>
  \<^verbatim>\<open>'{0:.0f}'.format(i)\<close> for an integer: Python converts the integer to a float
  first. \<open>float_of_nat n\<close> is the value of that float, \<open>n\<close> rounded to 53 significant
  bits (ties to even), which is \<open>n\<close> itself below \<open>2 ^ 53\<close>, or the OverflowError of an
  integer beyond the range of a float. The digits printed are those of the rounded value.
\<close>

fun bit_length :: "nat \<Rightarrow> nat" where
  "bit_length n = (if n = 0 then 0 else Suc (bit_length (n div 2)))"

declare bit_length.simps [simp del]

definition float_of_nat :: "nat \<Rightarrow> error + nat" where
  "float_of_nat n =
     (let e = bit_length n - 53 in
      if e = 0 then Inr n
      else
        (let q = n div 2 ^ e;
             r = n mod 2 ^ e;
             half = 2 ^ (e - 1);
             q' = (if half < r \<or> (r = half \<and> odd q) then q + 1 else q)
         in if 2 ^ 1024 \<le> q' * 2 ^ e then Inl OverflowError else Inr (q' * 2 ^ e)))"

definition format_0f :: "int \<Rightarrow> error + string" where
  "format_0f i =
     (case float_of_nat (nat \<bar>i\<bar>) of
        Inl e \<Rightarrow> Inl e
      | Inr m \<Rightarrow> Inr (if i < 0 then CHR ''-'' # str_nat m else str_nat m))"

text \<open>\<^verbatim>\<open>_replace_nan_to_empty\<close>.\<close>

definition replace_nan_to_empty :: "cell \<Rightarrow> error + string" where
  "replace_nan_to_empty field =
     (if isnull field then Inr ''''
      else (case field of IntV i \<Rightarrow> format_0f i | StrV s \<Rightarrow> Inr s | NaN \<Rightarrow> Inr ''''))"

text \<open>\<^verbatim>\<open>_get_tokenized_column\<close>: one token list per value of the column.\<close>

fun get_tokenized_column :: "cell list \<Rightarrow> error + string list list" where
  "get_tokenized_column [] = Inr []"
| "get_tokenized_column (v # column) =
     (case replace_nan_to_empty v of Inl e \<Rightarrow> Inl e | Inr tmp_value \<Rightarrow>
     (case get_tokenized_column column of Inl e \<Rightarrow> Inl e | Inr column_token_list \<Rightarrow>
      Inr ((if tmp_value \<noteq> '''' then split_space (lower tmp_value) else [''''])
           # column_token_list)))"

text \<open>
  The first loop of \<^verbatim>\<open>_get_tokenized_table\<close>: the selected columns, tokenized.
  \<open>names\<close> is \<^verbatim>\<open>table.columns[feature_list]\<close>.
\<close>

fun tokenize_columns :: "table \<Rightarrow> string list \<Rightarrow> error + string list list list" where
  "tokenize_columns t [] = Inr []"
| "tokenize_columns t (col # names) =
     (case get_column t col of Inl e \<Rightarrow> Inl e | Inr col_data \<Rightarrow>
     (case get_tokenized_column col_data of Inl e \<Rightarrow> Inl e | Inr column_token_list \<Rightarrow>
     (case tokenize_columns t names of Inl e \<Rightarrow> Inl e | Inr tmp_table \<Rightarrow>
      Inr (column_token_list # tmp_table))))"

text \<open>
  The innermost statement of the second loop, on the state \<open>(token_list, index_map)\<close>:
  a token seen before in the record gets the suffix \<open>_k\<close>, where \<open>k\<close> is the number
  of times it was seen; \<open>index_map\<close> is keyed by the token as it stands in the column.
\<close>

definition add_token ::
  "nat \<Rightarrow> string \<Rightarrow> (string \<times> nat) list \<times> (string \<rightharpoonup> nat)
    \<Rightarrow> (string \<times> nat) list \<times> (string \<rightharpoonup> nat)" where
  "add_token j token st =
     (if token \<noteq> '''' then
        (case snd st token of
           Some k \<Rightarrow> (fst st @ [(token @ ''_'' @ str_nat k, j)], (snd st)(token \<mapsto> k + 1))
         | None \<Rightarrow> (fst st @ [(token, j)], (snd st)(token \<mapsto> 1)))
      else st)"

text \<open>The token list of record \<open>i\<close>: the loops over the columns and over their tokens.\<close>

definition record_tokens :: "string list list list \<Rightarrow> nat \<Rightarrow> (string \<times> nat) list" where
  "record_tokens tmp_table i =
     fst (fold (\<lambda>j st. fold (add_token j) (tmp_table ! j ! i) st)
            [0..<length tmp_table] ([], Map.empty))"

text \<open>
  \<^verbatim>\<open>_get_tokenized_table\<close>. Indexing the columns with a position that is not one
  is an IndexError.
\<close>

definition get_tokenized_table ::
  "table \<Rightarrow> string \<Rightarrow> nat list \<Rightarrow> error + (string \<times> nat) list list" where
  "get_tokenized_table t table_key feature_list =
     (if list_ex (\<lambda>f. length (columns t) \<le> f) feature_list then Inl IndexError
      else
       (case tokenize_columns t (map (\<lambda>f. columns t ! f) feature_list) of
          Inl e \<Rightarrow> Inl e
        | Inr tmp_table \<Rightarrow>
       (case get_column t table_key of
          Inl e \<Rightarrow> Inl e
        | Inr key_col \<Rightarrow> Inr (map (record_tokens tmp_table) [0..<length key_col]))))"

section \<open>Global token order\<close>

text \<open>
  The frequency dictionary is an association list in the order of insertion, as a Python
  dictionary is. One step of \<^verbatim>\<open>_build_global_token_order_impl\<close>:
\<close>

definition count_token :: "string \<Rightarrow> (string \<times> nat) list \<Rightarrow> (string \<times> nat) list" where
  "count_token token order_dict =
     (case map_of order_dict token of
        Some c \<Rightarrow> AList.update token (c + 1) order_dict
      | None \<Rightarrow> AList.update token 1 order_dict)"

definition build_global_token_order_impl ::
  "(string \<times> nat) list list \<Rightarrow> (string \<times> nat) list \<Rightarrow> (string \<times> nat) list" where
  "build_global_token_order_impl record_list order_dict =
     fold (\<lambda>record d. fold (\<lambda>tup d'. count_token (fst tup) d') record d) record_list order_dict"

text \<open>
  \<^verbatim>\<open>_build_global_token_order\<close>, up to the sorted \<^verbatim>\<open>token_list\<close> (lines 599 to
  605). Every token of the list is a key of the dictionary, so the lookup in the sort key
  finds it. Strings compare lexicographically and the pairs of the key do as well.
\<close>

definition global_token_list ::
  "(string \<times> nat) list list \<Rightarrow> (string \<times> nat) list list \<Rightarrow> string list" where
  "global_token_list lrecord_list rrecord_list =
     (let freq_order_dict =
            build_global_token_order_impl rrecord_list
              (build_global_token_order_impl lrecord_list []);
          token_list = map fst freq_order_dict
      in sort_key (\<lambda>x. (the (map_of freq_order_dict x), x)) token_list)"

text \<open>
  \<^verbatim>\<open>_build_global_token_order\<close>: the two dictionaries \<open>(order_dict,
  token_index_dict)\<close> filled from the sorted list (lines 607 to 613).
\<close>

definition build_global_token_order ::
  "(string \<times> nat) list list \<Rightarrow> (string \<times> nat) list list
    \<Rightarrow> (string \<rightharpoonup> nat) \<times> (nat \<rightharpoonup> string)" where
  "build_global_token_order lrecord_list rrecord_list =
     (let token_list = global_token_list lrecord_list rrecord_list in
      fold (\<lambda>i dicts. ((fst dicts)(token_list ! i \<mapsto> i), (snd dicts)(i \<mapsto> token_list ! i)))
        [0..<length token_list] (Map.empty, Map.empty))"

text \<open>
  \<^verbatim>\<open>_replace_token_with_numeric_index\<close>, \<^verbatim>\<open>_sort_record_tokens_by_global_order\<close>
  and \<^verbatim>\<open>_split_record_token_and_index\<close>; each returns the list that the source
  writes in place. \<^verbatim>\<open>array('I', xs)\<close> holds unsigned integers of 32 bits and
  raises an OverflowError for a larger one.
\<close>

definition replace_token_with_numeric_index ::
  "(string \<times> nat) list list \<Rightarrow> (string \<rightharpoonup> nat) \<Rightarrow> (nat \<times> nat) list list" where
  "replace_token_with_numeric_index record_list order_dict =
     map (\<lambda>record.
            concat (map (\<lambda>tup. case order_dict (fst tup) of
                                  Some k \<Rightarrow> [(k, snd tup)]
                                | None \<Rightarrow> []) record))
       record_list"

definition sort_record_tokens_by_global_order :: "(nat \<times> nat) list list \<Rightarrow> (nat \<times> nat) list list" where
  "sort_record_tokens_by_global_order record_list = map (sort_key fst) record_list"

definition array_I :: "nat list \<Rightarrow> error + nat list" where
  "array_I xs = (if list_ex (\<lambda>x. 2 ^ 32 \<le> x) xs then Inl OverflowError else Inr xs)"

fun split_record_token_and_index ::
  "(nat \<times> nat) list list \<Rightarrow> error + nat list list \<times> nat list list" where
  "split_record_token_and_index [] = Inr ([], [])"
| "split_record_token_and_index (record # record_list) =
     (case array_I (map fst record) of Inl e \<Rightarrow> Inl e | Inr token_list \<Rightarrow>
     (case array_I (map snd record) of Inl e \<Rightarrow> Inl e | Inr index_list \<Rightarrow>
     (case split_record_token_and_index record_list of
        Inl e \<Rightarrow> Inl e
      | Inr arrays \<Rightarrow> Inr (token_list # fst arrays, index_list # snd arrays))))"

text \<open>
  \<^verbatim>\<open>debug_blocker\<close>, lines 160 to 180: from the filtered tables and the feature
  list to the token arrays and field arrays of the left and of the right records.
\<close>

definition debug_blocker_records ::
  "table \<Rightarrow> table \<Rightarrow> string \<Rightarrow> string \<Rightarrow> nat list
    \<Rightarrow> error + (nat list list \<times> nat list list) \<times> (nat list list \<times> nat list list)" where
  "debug_blocker_records ltable_filtered rtable_filtered l_key r_key feature_list =
     (case get_tokenized_table ltable_filtered l_key feature_list of
        Inl e \<Rightarrow> Inl e | Inr lrecord_list \<Rightarrow>
     (case get_tokenized_table rtable_filtered r_key feature_list of
        Inl e \<Rightarrow> Inl e | Inr rrecord_list \<Rightarrow>
      (let order_dict = fst (build_global_token_order lrecord_list rrecord_list);
           lrecords = sort_record_tokens_by_global_order
                        (replace_token_with_numeric_index lrecord_list order_dict);
           rrecords = sort_record_tokens_by_global_order
                        (replace_token_with_numeric_index rrecord_list order_dict)
       in
       (case split_record_token_and_index lrecords of Inl e \<Rightarrow> Inl e | Inr l_lists \<Rightarrow>
       (case split_record_token_and_index rrecords of Inl e \<Rightarrow> Inl e | Inr r_lists \<Rightarrow>
        Inr (l_lists, r_lists))))))"

section \<open>The feature weight as the specification words it\<close>



section \<open>Vocabulary of the statements\<close>

text \<open>
  The pair \<open>p\<close> of a correspondence list is one that \<^verbatim>\<open>_filter_corres_list\<close>
  removes: both of its columns are numeric and neither is the key of its table. The
  dtypes and the dictionaries are those of the loop.
\<close>

definition drop_pair ::
  "dtype list \<Rightarrow> dtype list \<Rightarrow> string \<Rightarrow> string \<Rightarrow> (string \<rightharpoonup> nat) \<Rightarrow> (string \<rightharpoonup> nat)
    \<Rightarrow> string \<times> string \<Rightarrow> bool" where
  "drop_pair ldt rdt lkey rkey ld rd p =
     (ldt ! the (ld (fst p)) \<noteq> Object \<and> rdt ! the (rd (snd p)) \<noteq> Object
      \<and> fst p \<noteq> lkey \<and> snd p \<noteq> rkey)"

text \<open>
  Every column a correspondence list names is in the dictionary of its table, with an
  index inside the dtype list: no lookup of the loop fails.
\<close>

definition known_cols ::
  "dtype list \<Rightarrow> dtype list \<Rightarrow> (string \<rightharpoonup> nat) \<Rightarrow> (string \<rightharpoonup> nat)
    \<Rightarrow> (string \<times> string) list \<Rightarrow> bool" where
  "known_cols ldt rdt ld rd cl =
     list_all (\<lambda>p. (case ld (fst p) of None \<Rightarrow> False | Some k \<Rightarrow> k < length ldt)
                 \<and> (case rd (snd p) of None \<Rightarrow> False | Some k \<Rightarrow> k < length rdt)) cl"

text \<open>
  The same test on two tables, with the dictionaries that
  \<^verbatim>\<open>_build_col_name_index_dict\<close> builds for them.
\<close>

definition both_numeric_non_key ::
  "table \<Rightarrow> table \<Rightarrow> string \<Rightarrow> string \<Rightarrow> string \<times> string \<Rightarrow> bool" where
  "both_numeric_non_key ltable rtable lkey rkey p =
     (dtypes ltable ! the (build_col_name_index_dict ltable (fst p)) \<noteq> Object
      \<and> dtypes rtable ! the (build_col_name_index_dict rtable (snd p)) \<noteq> Object
      \<and> fst p \<noteq> lkey \<and> snd p \<noteq> rkey)"

text \<open>
  The invariant of the suffixing loop of \<^verbatim>\<open>_get_tokenized_table\<close> on its state
  \<open>(token_list, index_map)\<close>, for records whose tokens hold no underscore: the counts
  are positive and their keys hold no underscore; every token string emitted is a key,
  or a key with a suffix \<open>_k\<close> for a \<open>k\<close> below the count of the key; and the
  token strings emitted are distinct.
\<close>

definition suffix_inv :: "(string \<times> nat) list \<times> (string \<rightharpoonup> nat) \<Rightarrow> bool" where
  "suffix_inv st =
     ((\<forall>t c. snd st t = Some c \<longrightarrow> 1 \<le> c \<and> CHR ''_'' \<notin> set t)
      \<and> (\<forall>x \<in> set (map fst (fst st)).
            snd st x \<noteq> None
            \<or> (\<exists>t k c. x = t @ ''_'' @ str_nat k \<and> snd st t = Some c \<and> 1 \<le> k \<and> k < c))
      \<and> distinct (map fst (fst st)))"

section \<open>Example tables\<close>

text \<open>A table of two records for the examples: a numeric key, a text and a numeric column.\<close>

definition example_table :: table where
  "example_table = \<lparr>columns = [''id'', ''name'', ''age''], dtypes = [Numeric, Object, Numeric],
     col_values = [[IntV 1, IntV 2], [StrV ''ann lee'', StrV ''bob''], [IntV 30, IntV 41]],
     num_records = 2\<rparr>"


text \<open>
  Two tables for the examples of feature selection: one with two text columns around
  the key, one with the key column only.
\<close>

definition shop_table :: table where
  "shop_table = \<lparr>columns = [''city'', ''id'', ''name''], dtypes = [Object, Numeric, Object],
     col_values = [[StrV ''rome'', StrV ''rome''], [IntV 1, IntV 2], [StrV ''ann lee'', StrV ''bob'']],
     num_records = 2\<rparr>"

definition key_only_table :: table where
  "key_only_table = \<lparr>columns = [''id''], dtypes = [Numeric], col_values = [[IntV 1, IntV 2]],
     num_records = 2\<rparr>"

text \<open>
  A table with one text column whose only value holds, once lowercased, the token
  \<^verbatim>\<open>a\<close> twice and the token \<^verbatim>\<open>a_1\<close>.
\<close>

definition suffix_table :: table where
  "suffix_table = \<lparr>columns = [''id'', ''title''], dtypes = [Numeric, Object],
     col_values = [[IntV 1], [StrV ''a_1 A a'']], num_records = 1\<rparr>"

section \<open>Helper lemmas\<close>



lemma validate_types_not_bool:
  "\<not> isinstance vb TBool \<Longrightarrow> validate_types lt rt cs os ac vb = Inl AssertionError"
  by (auto simp: validate_types_def validate_object_type_def validate_attr_corres_def
      split: sum.splits if_splits pyobj.splits)



lemma filter_step_known:
  assumes "known_cols ldt rdt ld rd cl" "i < length cl"
  shows "filter_step ldt rdt lkey rkey ld rd i cl =
           Inr (if drop_pair ldt rdt lkey rkey ld rd (cl ! i) then pop i cl else cl)"
proof -
  from assms have "(case ld (fst (cl ! i)) of None \<Rightarrow> False | Some k \<Rightarrow> k < length ldt)
     \<and> (case rd (snd (cl ! i)) of None \<Rightarrow> False | Some k \<Rightarrow> k < length rdt)"
    by (simp add: known_cols_def list_all_length)
  then show ?thesis using assms(2)
    by (auto simp: filter_step_def dtype_not_object_def drop_pair_def Let_def split: option.splits)
qed

lemma known_cols_pop: "known_cols ldt rdt ld rd cl \<Longrightarrow> known_cols ldt rdt ld rd (pop i cl)"
  by (auto simp: known_cols_def pop_def list_all_iff dest: in_set_takeD in_set_dropD)

lemma filter_loop_known:
  assumes "known_cols ldt rdt ld rd cl" "i \<le> length cl"
  shows "filter_loop (filter_step ldt rdt lkey rkey ld rd) i cl =
           Inr (filter (\<lambda>p. \<not> drop_pair ldt rdt lkey rkey ld rd p) (take i cl) @ drop i cl)"
  using assms
proof (induction i arbitrary: cl)
  case 0
  then show ?case by simp
next
  case (Suc i)
  let ?D = "drop_pair ldt rdt lkey rkey ld rd"
  from Suc.prems have i: "i < length cl" by simp
  have tk: "take (Suc i) cl = take i cl @ [cl ! i]" using i by (simp add: take_Suc_conv_app_nth)
  show ?case
  proof (cases "?D (cl ! i)")
    case True
    have k: "known_cols ldt rdt ld rd (pop i cl)" using Suc.prems(1) by (rule known_cols_pop)
    have l: "i \<le> length (pop i cl)" using i by (simp add: pop_def)
    have "take i (pop i cl) = take i cl" "drop i (pop i cl) = drop (Suc i) cl"
      using i by (simp_all add: pop_def)
    with Suc.IH [OF k l] True i Suc.prems(1) show ?thesis
      by (simp add: filter_step_known tk)
  next
    case False
    have "drop i cl = cl ! i # drop (Suc i) cl" using i by (simp add: Cons_nth_drop_Suc)
    with Suc.IH [OF Suc.prems(1)] False i Suc.prems(1) show ?thesis
      by (simp add: filter_step_known tk)
  qed
qed


lemma col_dict_fold:
  "n \<le> length xs \<Longrightarrow>
     (case fold (\<lambda>i d. d(xs ! i \<mapsto> i)) [0..<n] Map.empty name of
        None \<Rightarrow> name \<notin> set (take n xs)
      | Some k \<Rightarrow> k < n \<and> xs ! k = name)"
proof (induction n)
  case 0
  then show ?case by simp
next
  case (Suc n)
  then have "n < length xs" by simp
  then have "set (take (Suc n) xs) = insert (xs ! n) (set (take n xs))"
    by (simp add: take_Suc_conv_app_nth)
  with Suc show ?case by (auto split: option.splits)
qed

lemma build_col_name_index_dict_in:
  "name \<in> set (columns t) \<Longrightarrow> \<exists>k < length (columns t). build_col_name_index_dict t name = Some k"
  using col_dict_fold [of "length (columns t)" "columns t" name]
  by (auto simp: build_col_name_index_dict_def split: option.splits)

lemma known_cols_build:
  assumes "length (dtypes lt) = length (columns lt)" "length (dtypes rt) = length (columns rt)"
    and "list_all (\<lambda>p. fst p \<in> set (columns lt) \<and> snd p \<in> set (columns rt)) cl"
  shows "known_cols (dtypes lt) (dtypes rt) (build_col_name_index_dict lt)
           (build_col_name_index_dict rt) cl"
  unfolding known_cols_def list_all_iff
proof
  fix p assume "p \<in> set cl"
  with assms(3) have "fst p \<in> set (columns lt)" "snd p \<in> set (columns rt)"
    by (auto simp: list_all_iff)
  from build_col_name_index_dict_in [OF this(1)] build_col_name_index_dict_in [OF this(2)] assms(1,2)
  show "(case build_col_name_index_dict lt (fst p) of None \<Rightarrow> False | Some k \<Rightarrow> k < length (dtypes lt)) \<and>
         (case build_col_name_index_dict rt (snd p) of None \<Rightarrow> False | Some k \<Rightarrow> k < length (dtypes rt))"
    by auto
qed

lemma drop_pair_eq:
  "drop_pair (dtypes lt) (dtypes rt) lkey rkey (build_col_name_index_dict lt)
     (build_col_name_index_dict rt) = both_numeric_non_key lt rt lkey rkey"
  by (rule ext) (simp add: drop_pair_def both_numeric_non_key_def)

lemma filter_corres_list_eq:
  assumes "length (dtypes lt) = length (columns lt)" "length (dtypes rt) = length (columns rt)"
    and "list_all (\<lambda>p. fst p \<in> set (columns lt) \<and> snd p \<in> set (columns rt)) cl"
  shows "filter_corres_list lt rt lkey rkey (build_col_name_index_dict lt)
           (build_col_name_index_dict rt) cl =
         (if filter (\<lambda>p. \<not> both_numeric_non_key lt rt lkey rkey p) cl = [(lkey, rkey)]
          then Inl AssertionError
          else Inr (filter (\<lambda>p. \<not> both_numeric_non_key lt rt lkey rkey p) cl))"
proof -
  let ?f = "filter (\<lambda>p. \<not> both_numeric_non_key lt rt lkey rkey p) cl"
  have "filter_loop (filter_step (dtypes lt) (dtypes rt) lkey rkey (build_col_name_index_dict lt)
           (build_col_name_index_dict rt)) (length cl) cl = Inr ?f"
    using filter_loop_known [OF known_cols_build [OF assms], of "length cl" lkey rkey]
    by (simp add: drop_pair_eq)
  moreover have "(length ?f = 1 \<and> fst (?f ! 0) = lkey \<and> snd (?f ! 0) = rkey) = (?f = [(lkey, rkey)])"
    by (cases ?f) (auto simp: prod_eq_iff)
  ultimately show ?thesis by (simp add: filter_corres_list_def)
qed

lemma get_field_correspondence_list_shape:
  assumes "get_field_correspondence_list auto_corres lkey rkey attr_corres = Inr cl"
  defines "given \<equiv> (if attr_corres = None \<or> the attr_corres = [] then auto_corres else the attr_corres)"
  shows "cl = (if (lkey, rkey) \<in> set given then given else given @ [(lkey, rkey)])"
  using assms by (auto simp: get_field_correspondence_list_def split: if_splits)


























lemma suffix_table_tokens: "get_tokenized_table suffix_table ''id'' [1]
    = Inr [[(''a_1'', 0), (''a'', 0), (''a_1'', 0)]]"
  by code_simp

lemma suffix_table_token_list: "global_token_list [[(''a_1'', 0), (''a'', 0), (''a_1'', 0)]]
     [[(''a_1'', 0), (''a'', 0), (''a_1'', 0)]] = [''a'', ''a_1'']"
  by code_simp

lemma suffix_table_order_dict: "fst (build_global_token_order [[(''a_1'', 0), (''a'', 0), (''a_1'', 0)]]
     [[(''a_1'', 0), (''a'', 0), (''a_1'', 0)]]) = [''a'' \<mapsto> 0, ''a_1'' \<mapsto> 1]"
  by (simp add: build_global_token_order_def suffix_table_token_list eval_nat_numeral)

lemma suffix_table_ranks: "sort_record_tokens_by_global_order
     (replace_token_with_numeric_index [[(''a_1'', 0), (''a'', 0), (''a_1'', 0)]]
        [''a'' \<mapsto> 0, ''a_1'' \<mapsto> 1]) = [[(0, 0), (1, 0), (1, 0)]]"
  by (simp add: sort_record_tokens_by_global_order_def replace_token_with_numeric_index_def)

lemma suffix_table_arrays: "split_record_token_and_index [[(0, 0), (1, 0), (1, 0)]]
     = Inr ([[0, 1, 1]], [[0, 0, 0]])"
  by (simp add: array_I_def)

lemma insort_key_cong_set:
  "f x = g x \<Longrightarrow> (\<And>y. y \<in> set ys \<Longrightarrow> f y = g y) \<Longrightarrow> insort_key f x ys = insort_key g x ys"
  by (induction ys) simp_all

lemma sort_key_cong_set:
  "(\<And>x. x \<in> set xs \<Longrightarrow> f x = g x) \<Longrightarrow> sort_key f xs = sort_key g xs"
proof (induction xs)
  case Nil
  then show ?case by simp
next
  case (Cons x xs)
  then have "sort_key f xs = sort_key g xs" by simp
  moreover have "insort_key f x (sort_key g xs) = insort_key g x (sort_key g xs)"
    using Cons.prems by (intro insort_key_cong_set) simp_all
  ultimately show ?case by simp
qed

lemma sort_key_unique:
  assumes "distinct xs" "distinct ys" "set xs = set ys" "inj_on f (set xs)"
  shows "sort_key f xs = sort_key f ys"
proof -
  let ?A = "sort_key f xs" and ?B = "sort_key f ys"
  have inj: "inj_on f (set ?A \<union> set ?B)" using assms(3,4) by simp
  have "distinct (map f ?A)" "distinct (map f ?B)"
    using assms by (simp_all add: distinct_map)
  moreover have "set (map f ?A) = set (map f ?B)" using assms(3) by simp
  ultimately have "map f ?A = map f ?B"
    by (intro sorted_distinct_set_unique) simp_all
  then show ?thesis using inj by (simp add: inj_on_map_eq_map)
qed

lemma impl_as_fold:
  "build_global_token_order_impl record_list d
     = fold count_token (concat (map (map fst) record_list)) d"
  unfolding build_global_token_order_impl_def
  by (induction record_list arbitrary: d) (simp_all add: fold_map comp_def)

lemma map_of_count_token:
  "map_of (count_token t d) = (map_of d)(t \<mapsto> (case map_of d t of Some c \<Rightarrow> c + 1 | None \<Rightarrow> 1))"
  by (simp add: count_token_def update_conv' split: option.splits)

lemma keys_count_token: "fst ` set (count_token t d) = insert t (fst ` set d)"
  by (simp add: count_token_def dom_update split: option.splits)

lemma distinct_count_token: "distinct (map fst d) \<Longrightarrow> distinct (map fst (count_token t d))"
  by (simp add: count_token_def distinct_update split: option.splits)

lemma fold_count_token:
  "distinct (map fst d) \<Longrightarrow>
     distinct (map fst (fold count_token ts d))
     \<and> fst ` set (fold count_token ts d) = set ts \<union> fst ` set d
     \<and> map_of (fold count_token ts d) t =
         (if t \<in> set ts \<or> t \<in> fst ` set d
          then Some (count_list ts t + (case map_of d t of Some c \<Rightarrow> c | None \<Rightarrow> 0))
          else None)"
proof (induction ts arbitrary: d)
  case Nil
  then show ?case
    by (auto simp: map_of_eq_None_iff split: option.splits)
next
  case (Cons a ts)
  from Cons.IH [OF distinct_count_token [OF Cons.prems], of ] show ?case
    by (auto simp: keys_count_token map_of_count_token split: option.splits)
qed


lemma global_token_list_eq:
  "global_token_list l r =
     sort_key (\<lambda>t. (count_list (concat (map (map fst) (l @ r))) t, t))
       (remdups (concat (map (map fst) (l @ r))))"
proof -
  define ts where "ts = concat (map (map fst) (l @ r))"
  define F where "F = build_global_token_order_impl r (build_global_token_order_impl l [])"
  have F: "F = fold count_token ts []" by (simp add: F_def ts_def impl_as_fold)
  have d: "distinct (map fst F)"
    using fold_count_token [of "[]" ts] unfolding F by simp
  have k: "fst ` set F = set ts"
    using fold_count_token [of "[]" ts] unfolding F by simp
  have m: "map_of F t = (if t \<in> set ts then Some (count_list ts t) else None)" for t
    using fold_count_token [of "[]" ts t] unfolding F by simp
  have "sort_key (\<lambda>x. (the (map_of F x), x)) (map fst F)
      = sort_key (\<lambda>t. (count_list ts t, t)) (map fst F)"
  proof (rule sort_key_cong_set)
    fix x assume "x \<in> set (map fst F)"
    then have "x \<in> set ts" using k by simp
    then have "map_of F x = Some (count_list ts x)" by (simp add: m)
    then show "(the (map_of F x), x) = (count_list ts x, x)" by simp
  qed
  also have "\<dots> = sort_key (\<lambda>t. (count_list ts t, t)) (remdups ts)"
    by (rule sort_key_unique) (simp_all add: d k inj_on_def)
  finally show ?thesis
    unfolding global_token_list_def Let_def F_def [symmetric] ts_def [symmetric] .
qed

lemma fold_dicts:
  assumes "distinct V" "n \<le> length V"
  shows "(fst (fold (\<lambda>i dicts. ((fst dicts)(V ! i \<mapsto> i), (snd dicts)(i \<mapsto> V ! i)))
                 [0..<n] (Map.empty, Map.empty)) t = Some i) = (i < n \<and> V ! i = t)
       \<and> (snd (fold (\<lambda>i dicts. ((fst dicts)(V ! i \<mapsto> i), (snd dicts)(i \<mapsto> V ! i)))
                 [0..<n] (Map.empty, Map.empty)) i = Some t) = (i < n \<and> V ! i = t)"
  using assms(2)
proof (induction n)
  case 0
  then show ?case by simp
next
  case (Suc n)
  then have n: "n < length V" by simp
  define S where "S = fold (\<lambda>i dicts. ((fst dicts)(V ! i \<mapsto> i), (snd dicts)(i \<mapsto> V ! i)))
                 [0..<n] (Map.empty, Map.empty)"
  have step: "fold (\<lambda>i dicts. ((fst dicts)(V ! i \<mapsto> i), (snd dicts)(i \<mapsto> V ! i)))
                 [0..<Suc n] (Map.empty, Map.empty)
              = ((fst S)(V ! n \<mapsto> n), (snd S)(n \<mapsto> V ! n))"
    by (simp add: S_def)
  have u: "(i < Suc n \<and> V ! i = V ! n) = (i = n)"
    using assms(1) n by (auto simp: nth_eq_iff_index_eq)
  from n have "n \<le> length V" by simp
  note IH = Suc.IH [OF this, folded S_def]
  note IH1 = IH [THEN conjunct1] and IH2 = IH [THEN conjunct2]
  have 1: "(((fst S)(V ! n \<mapsto> n)) t = Some i) = (i < Suc n \<and> V ! i = t)"
  proof (cases "t = V ! n")
    case True
    then show ?thesis using u by auto
  next
    case False
    then show ?thesis using IH1 by (auto simp: less_Suc_eq)
  qed
  have 2: "(((snd S)(n \<mapsto> V ! n)) i = Some t) = (i < Suc n \<and> V ! i = t)"
  proof (cases "i = n")
    case True
    then show ?thesis by auto
  next
    case False
    then show ?thesis using IH2 by (auto simp: less_Suc_eq)
  qed
  show ?case unfolding step fst_conv snd_conv using 1 2 by blast
qed

lemma build_global_token_order_lookup:
  assumes "distinct (global_token_list l r)"
  shows "(fst (build_global_token_order l r) t = Some i)
           = (i < length (global_token_list l r) \<and> global_token_list l r ! i = t)"
    and "(snd (build_global_token_order l r) i = Some t)
           = (i < length (global_token_list l r) \<and> global_token_list l r ! i = t)"
  using fold_dicts [OF assms, of "length (global_token_list l r)" t i]
  by (simp_all add: build_global_token_order_def Let_def)

lemma digit_inj:
  assumes "a < 10" "b < 10" "''0123456789'' ! a = ''0123456789'' ! b"
  shows "a = b"
proof -
  have "distinct ''0123456789''" by simp
  moreover have "a < length ''0123456789''" "b < length ''0123456789''" using assms by simp_all
  ultimately show ?thesis using assms(3) by (simp only: nth_eq_iff_index_eq)
qed

lemma digit_not_underscore: "a < 10 \<Longrightarrow> ''0123456789'' ! a \<noteq> CHR ''_''"
proof -
  assume "a < 10"
  then have "''0123456789'' ! a \<in> set ''0123456789''" by (intro nth_mem) simp
  then show ?thesis by auto
qed

lemma str_nat_not_Nil: "str_nat n \<noteq> []"
  by (subst str_nat.simps) simp

lemma str_nat_no_underscore: "CHR ''_'' \<notin> set (str_nat n)"
proof (induction n rule: str_nat.induct)
  case (1 n)
  show ?case
  proof (cases "n < 10")
    case True
    then show ?thesis using digit_not_underscore [of n] by (subst str_nat.simps) auto
  next
    case False
    have "n mod 10 < 10" by simp
    from digit_not_underscore [OF this] "1" [OF False] False
    show ?thesis by (subst str_nat.simps) auto
  qed
qed

lemma str_nat_inj: "str_nat n = str_nat m \<Longrightarrow> n = m"
proof (induction n arbitrary: m rule: str_nat.induct)
  case (1 n)
  show ?case
  proof (cases "n < 10")
    case n: True
    show ?thesis
    proof (cases "m < 10")
      case True
      with n "1.prems" have "''0123456789'' ! n = ''0123456789'' ! m"
        by (simp add: str_nat.simps [of n] str_nat.simps [of m])
      then show ?thesis using n True by (intro digit_inj)
    next
      case False
      with n "1.prems" show ?thesis
        using str_nat_not_Nil [of "m div 10"]
        by (simp add: str_nat.simps [of n] str_nat.simps [of m])
    qed
  next
    case n: False
    show ?thesis
    proof (cases "m < 10")
      case True
      with n "1.prems" show ?thesis
        using str_nat_not_Nil [of "n div 10"]
        by (simp add: str_nat.simps [of n] str_nat.simps [of m])
    next
      case False
      with n "1.prems" have eq: "str_nat (n div 10) = str_nat (m div 10)"
        "''0123456789'' ! (n mod 10) = ''0123456789'' ! (m mod 10)"
        by (simp_all add: str_nat.simps [of n] str_nat.simps [of m])
      from "1.IH" [OF n eq(1)] have d: "n div 10 = m div 10" .
      have "n mod 10 = m mod 10" using eq(2) by (intro digit_inj) simp_all
      with d show ?thesis by (metis div_mult_mod_eq)
    qed
  qed
qed

lemma split_at_underscore:
  assumes "CHR ''_'' \<notin> set s" "CHR ''_'' \<notin> set t" "s @ ''_'' @ a = t @ ''_'' @ b"
  shows "s = t \<and> a = b"
  using assms
proof (induction s arbitrary: t)
  case Nil
  then show ?case by (cases t) auto
next
  case (Cons c s)
  then show ?case by (cases t) auto
qed


lemma add_token_inv:
  assumes inv: "suffix_inv st" and tok: "CHR ''_'' \<notin> set tok"
  shows "suffix_inv (add_token j tok st)"
proof (cases "tok = []")
  case True
  then show ?thesis using inv by (simp add: add_token_def)
next
  case ne: False
  obtain tl im where st: "st = (tl, im)" by (cases st)
  from inv have I1: "\<And>t c. im t = Some c \<Longrightarrow> 1 \<le> c \<and> CHR ''_'' \<notin> set t"
    and I2: "\<And>x. x \<in> set (map fst tl) \<Longrightarrow> im x \<noteq> None
            \<or> (\<exists>t k c. x = t @ ''_'' @ str_nat k \<and> im t = Some c \<and> 1 \<le> k \<and> k < c)"
    and I3: "distinct (map fst tl)"
    unfolding suffix_inv_def st by auto
  show ?thesis
  proof (cases "im tok")
    case None
    have new: "add_token j tok st = (tl @ [(tok, j)], im(tok \<mapsto> 1))"
      using ne None by (simp add: add_token_def st)
    have fresh: "tok \<notin> set (map fst tl)"
    proof
      assume "tok \<in> set (map fst tl)"
      from I2 [OF this] None obtain t k where "tok = t @ ''_'' @ str_nat k" by auto
      with tok show False by simp
    qed
    have J1: "1 \<le> c \<and> CHR ''_'' \<notin> set t" if "(im(tok \<mapsto> 1)) t = Some c" for t c
      using that I1 tok by (auto split: if_splits)
    have J2: "(im(tok \<mapsto> 1)) x \<noteq> None
            \<or> (\<exists>t k c. x = t @ ''_'' @ str_nat k \<and> (im(tok \<mapsto> 1)) t = Some c \<and> 1 \<le> k \<and> k < c)"
      if "x \<in> set (map fst (tl @ [(tok, j)]))" for x
    proof (cases "x = tok")
      case True
      then show ?thesis by simp
    next
      case False
      with that have "x \<in> set (map fst tl)" by auto
      from I2 [OF this] show ?thesis
      proof
        assume "im x \<noteq> None"
        then show ?thesis using False by simp
      next
        assume "\<exists>t k c. x = t @ ''_'' @ str_nat k \<and> im t = Some c \<and> 1 \<le> k \<and> k < c"
        then obtain t k c where x: "x = t @ ''_'' @ str_nat k" "im t = Some c" "1 \<le> k" "k < c"
          by blast
        from x(2) None have "t \<noteq> tok" by auto
        with x have "x = t @ ''_'' @ str_nat k \<and> (im(tok \<mapsto> 1)) t = Some c \<and> 1 \<le> k \<and> k < c"
          by simp
        then show ?thesis by blast
      qed
    qed
    have J3: "distinct (map fst (tl @ [(tok, j)]))" using I3 fresh by simp
    show ?thesis unfolding new suffix_inv_def fst_conv snd_conv using J1 J2 J3 by blast
  next
    case (Some c)
    let ?out = "tok @ ''_'' @ str_nat c"
    have new: "add_token j tok st = (tl @ [(?out, j)], im(tok \<mapsto> c + 1))"
      using ne Some by (simp add: add_token_def st)
    from I1 [OF Some] have c1: "1 \<le> c" by simp
    have fresh: "?out \<notin> set (map fst tl)"
    proof
      assume "?out \<in> set (map fst tl)"
      from I2 [OF this] show False
      proof
        assume "im ?out \<noteq> None"
        then obtain c' where "im ?out = Some c'" by auto
        from I1 [OF this] show False by simp
      next
        assume "\<exists>t k c'. ?out = t @ ''_'' @ str_nat k \<and> im t = Some c' \<and> 1 \<le> k \<and> k < c'"
        then obtain t k c' where x: "?out = t @ ''_'' @ str_nat k" "im t = Some c'" "k < c'"
          by blast
        from I1 [OF x(2)] have "CHR ''_'' \<notin> set t" by simp
        from split_at_underscore [OF tok this x(1)] have "tok = t" "str_nat c = str_nat k"
          by simp_all
        then have "t = tok" "k = c" using str_nat_inj by auto
        with x(2,3) Some show False by simp
      qed
    qed
    have J1: "1 \<le> c' \<and> CHR ''_'' \<notin> set t" if "(im(tok \<mapsto> c + 1)) t = Some c'" for t c'
      using that I1 tok by (auto split: if_splits)
    have J2: "(im(tok \<mapsto> c + 1)) x \<noteq> None
            \<or> (\<exists>t k c'. x = t @ ''_'' @ str_nat k \<and> (im(tok \<mapsto> c + 1)) t = Some c'
                  \<and> 1 \<le> k \<and> k < c')"
      if "x \<in> set (map fst (tl @ [(?out, j)]))" for x
    proof (cases "x = ?out")
      case True
      then have "x = tok @ ''_'' @ str_nat c \<and> (im(tok \<mapsto> c + 1)) tok = Some (c + 1)
          \<and> 1 \<le> c \<and> c < c + 1"
        using c1 by simp
      then show ?thesis by blast
    next
      case False
      with that have "x \<in> set (map fst tl)" by auto
      from I2 [OF this] show ?thesis
      proof
        assume "im x \<noteq> None"
        then show ?thesis by simp
      next
        assume "\<exists>t k c'. x = t @ ''_'' @ str_nat k \<and> im t = Some c' \<and> 1 \<le> k \<and> k < c'"
        then obtain t k c' where x: "x = t @ ''_'' @ str_nat k" "im t = Some c'" "1 \<le> k" "k < c'"
          by blast
        show ?thesis
        proof (cases "t = tok")
          case True
          with x Some have "x = t @ ''_'' @ str_nat k \<and> (im(tok \<mapsto> c + 1)) t = Some (c + 1)
              \<and> 1 \<le> k \<and> k < c + 1"
            by simp
          then show ?thesis by blast
        next
          case False
          with x have "x = t @ ''_'' @ str_nat k \<and> (im(tok \<mapsto> c + 1)) t = Some c'
              \<and> 1 \<le> k \<and> k < c'"
            by simp
          then show ?thesis by blast
        qed
      qed
    qed
    have J3: "distinct (map fst (tl @ [(?out, j)]))" using I3 fresh by simp
    show ?thesis unfolding new suffix_inv_def fst_conv snd_conv using J1 J2 J3 by blast
  qed
qed

lemma fold_add_token_inv:
  "suffix_inv st \<Longrightarrow> (\<forall>tok \<in> set toks. CHR ''_'' \<notin> set tok) \<Longrightarrow>
     suffix_inv (fold (add_token j) toks st)"
  by (induction toks arbitrary: st) (simp_all add: add_token_inv)

lemma fold_columns_inv:
  "suffix_inv st \<Longrightarrow> (\<forall>j \<in> set js. \<forall>tok \<in> set (tmp_table ! j ! i). CHR ''_'' \<notin> set tok) \<Longrightarrow>
     suffix_inv (fold (\<lambda>j st. fold (add_token j) (tmp_table ! j ! i) st) js st)"
  by (induction js arbitrary: st) (simp_all add: fold_add_token_inv)

lemma record_tokens_distinct:
  assumes "\<forall>j < length tmp_table. \<forall>tok \<in> set (tmp_table ! j ! i). CHR ''_'' \<notin> set tok"
  shows "distinct (map fst (record_tokens tmp_table i))"
proof -
  have "suffix_inv ([], Map.empty)" by (simp add: suffix_inv_def)
  from fold_columns_inv [OF this, of "[0..<length tmp_table]" tmp_table i] assms
  show ?thesis by (simp add: record_tokens_def suffix_inv_def)
qed


lemma global_token_list_distinct: "distinct (global_token_list l r)"
  unfolding global_token_list_eq by (simp only: distinct_sort distinct_remdups)

lemma global_token_list_set:
  "set (global_token_list l r) = set (concat (map (map fst) (l @ r)))"
  unfolding global_token_list_eq by (simp only: set_sort set_remdups)

lemma order_dict_total:
  assumes "rec \<in> set l \<union> set r" "tup \<in> set rec"
  shows "\<exists>k. fst (build_global_token_order l r) (fst tup) = Some k"
proof -
  from assms have "fst tup \<in> set (global_token_list l r)"
    unfolding global_token_list_set by auto
  then obtain k where "k < length (global_token_list l r)" "global_token_list l r ! k = fst tup"
    by (auto simp: in_set_conv_nth)
  then show ?thesis
    using build_global_token_order_lookup(1) [OF global_token_list_distinct, of l r "fst tup" k]
    by blast
qed

lemma order_dict_inj:
  assumes "fst (build_global_token_order l r) s = Some k"
    and "fst (build_global_token_order l r) t = Some k"
  shows "s = t"
  using assms build_global_token_order_lookup(1) [OF global_token_list_distinct, of l r]
  by simp

lemma replaced_ranks:
  assumes "\<forall>tup \<in> set rec. \<exists>k. od (fst tup) = Some k"
  shows "map fst (concat (map (\<lambda>tup. case od (fst tup) of Some k \<Rightarrow> [(k, snd tup)] | None \<Rightarrow> [])
                      rec))
         = map (\<lambda>tup. the (od (fst tup))) rec"
  using assms by (induction rec) auto

lemma sort_key_strictly_ascending:
  assumes "distinct (map f xs)"
  shows "sorted_wrt (<) (map f (sort_key f xs))"
proof -
  from assms have "distinct xs" "inj_on f (set xs)" by (simp_all add: distinct_map)
  then have "distinct (map f (sort_key f xs))" by (simp add: distinct_map)
  moreover have "sorted (map f (sort_key f xs))" by (rule sorted_sort_key)
  ultimately show ?thesis by (simp add: strict_sorted_iff)
qed

lemma record_ranks_strictly_ascending:
  assumes mem: "rec \<in> set l \<union> set r" and dist: "distinct (map fst rec)"
  shows "sorted_wrt (<)
           (map fst (sort_key fst
              (concat (map (\<lambda>tup. case fst (build_global_token_order l r) (fst tup) of
                                    Some k \<Rightarrow> [(k, snd tup)] | None \<Rightarrow> []) rec))))"
proof (rule sort_key_strictly_ascending)
  let ?od = "fst (build_global_token_order l r)"
  have tot: "\<forall>tup \<in> set rec. \<exists>k. ?od (fst tup) = Some k"
    using order_dict_total [OF mem] by blast
  have "inj_on (\<lambda>t. the (?od t)) (set (map fst rec))"
  proof (rule inj_onI)
    fix s t assume s: "s \<in> set (map fst rec)" and t: "t \<in> set (map fst rec)"
      and eq: "the (?od s) = the (?od t)"
    from s obtain tup where "tup \<in> set rec" "s = fst tup" by auto
    with tot obtain i where "?od s = Some i" by blast
    from t obtain tup' where "tup' \<in> set rec" "t = fst tup'" by auto
    with tot obtain j where "?od t = Some j" by blast
    note \<open>?od s = Some i\<close> \<open>?od t = Some j\<close>
    with eq show "s = t" using order_dict_inj [of l r s i t] by simp
  qed
  with dist have "distinct (map (\<lambda>t. the (?od t)) (map fst rec))"
    by (simp only: distinct_map simp_thms)
  then show "distinct (map fst (concat (map (\<lambda>tup. case ?od (fst tup) of
                                    Some k \<Rightarrow> [(k, snd tup)] | None \<Rightarrow> []) rec)))"
    unfolding replaced_ranks [OF tot] by (simp add: comp_def)
qed

lemma split_record_token_and_index_ok:
  "split_record_token_and_index recs = Inr (ts, is) \<Longrightarrow>
     ts = map (map fst) recs \<and> is = map (map snd) recs"
proof (induction recs arbitrary: ts "is")
  case Nil
  then show ?case by simp
next
  case (Cons a recs)
  then show ?case
    by (auto simp: array_I_def split: sum.splits if_splits)
qed

lemma token_arrays_strictly_ascending:
  assumes run: "debug_blocker_records lt rt lk rk fl = Inr ((ltoks, lidx), (rtoks, ridx))"
    and l: "get_tokenized_table lt lk fl = Inr lrecs"
    and r: "get_tokenized_table rt rk fl = Inr rrecs"
    and dist: "\<forall>rec \<in> set lrecs \<union> set rrecs. distinct (map fst rec)"
  shows "\<forall>a \<in> set ltoks \<union> set rtoks. sorted_wrt (<) a"
proof -
  let ?od = "fst (build_global_token_order lrecs rrecs)"
  let ?rank = "\<lambda>rec. sort_key fst (concat (map (\<lambda>tup. case ?od (fst tup) of
                                    Some k \<Rightarrow> [(k, snd tup)] | None \<Rightarrow> []) rec))"
  have recs: "sort_record_tokens_by_global_order (replace_token_with_numeric_index recs ?od)
      = map ?rank recs" for recs
    by (simp add: sort_record_tokens_by_global_order_def replace_token_with_numeric_index_def)
  from run have "split_record_token_and_index (map ?rank lrecs) = Inr (ltoks, lidx)"
    and "split_record_token_and_index (map ?rank rrecs) = Inr (rtoks, ridx)"
    unfolding debug_blocker_records_def l r sum.case Let_def recs
    by (auto split: sum.splits)
  then have lt: "ltoks = map (\<lambda>rec. map fst (?rank rec)) lrecs"
    and rt: "rtoks = map (\<lambda>rec. map fst (?rank rec)) rrecs"
    by (auto dest!: split_record_token_and_index_ok simp: comp_def)
  show ?thesis
  proof
    fix a assume "a \<in> set ltoks \<union> set rtoks"
    then obtain rec where "rec \<in> set lrecs \<union> set rrecs" "a = map fst (?rank rec)"
      unfolding lt rt by auto
    then show "sorted_wrt (<) a"
      using record_ranks_strictly_ascending [of rec lrecs rrecs] dist by simp
  qed
qed

section \<open>Properties\<close>

text \<open>
  C1 fails on the code. The suffix \<open>_k\<close> is added to the token as it stands in the
  column, and a suffixed token can be equal to a token that stands in the record itself:
  in a record with the text \<^verbatim>\<open>a_1 A a\<close> the second \<^verbatim>\<open>a\<close> becomes
  \<^verbatim>\<open>a_1\<close>, which is already there. The token strings of the record are not
  distinct, and after rank substitution and sorting its token array \<open>[0, 1, 1]\<close> is
  not strictly ascending. (The suffixing does its work on records whose tokens hold no
  underscore: \<open>record_tokens_distinct\<close> and \<open>token_arrays_strictly_ascending\<close>
  above.)
\<close>

theorem suffixed_tokens_collide:
  "get_tokenized_table suffix_table ''id'' [1]
     = Inr [[(''a_1'', 0), (''a'', 0), (''a_1'', 0)]]
   \<and> distinct (map fst [(''a_1'', 0::nat), (''a'', 0), (''a_1'', 0)]) = False
   \<and> debug_blocker_records suffix_table suffix_table ''id'' ''id'' [1]
     = Inr (([[0, 1, 1]], [[0, 0, 0]]), ([[0, 1, 1]], [[0, 0, 0]]))
   \<and> sorted_wrt (<) [0, 1, 1 :: nat] = False"
  unfolding debug_blocker_records_def suffix_table_tokens sum.case Let_def
    suffix_table_order_dict suffix_table_ranks suffix_table_arrays
  by simp




text \<open>
  C3, as the code has it. Let the correspondence list be the one
  \<^verbatim>\<open>_get_field_correspondence_list\<close> returns, over columns of the two tables.
  \<^verbatim>\<open>_filter_corres_list\<close> removes exactly the pairs whose two columns are numeric
  and of which neither is the key, keeping the order. The filtered list always contains
  the key pair; the key pair is its last element when the list it was built from (the
  user's, or the automatic one) did not hold the key pair, so that it was appended. The
  operation fails, with an AssertionError, exactly when the filtered list is the key pair
  alone.
\<close>

theorem filter_corres_list_key_pair:
  assumes "length (dtypes ltable) = length (columns ltable)"
    and "length (dtypes rtable) = length (columns rtable)"
    and "get_field_correspondence_list auto_corres lkey rkey attr_corres = Inr corres_list"
    and "list_all (\<lambda>p. fst p \<in> set (columns ltable) \<and> snd p \<in> set (columns rtable)) corres_list"
  shows
    "(let filtered = filter (\<lambda>p. \<not> both_numeric_non_key ltable rtable lkey rkey p) corres_list;
          given = (if attr_corres = None \<or> the attr_corres = [] then auto_corres else the attr_corres)
      in filter_corres_list ltable rtable lkey rkey (build_col_name_index_dict ltable)
           (build_col_name_index_dict rtable) corres_list =
           (if filtered = [(lkey, rkey)] then Inl AssertionError else Inr filtered)
         \<and> (lkey, rkey) \<in> set filtered
         \<and> ((lkey, rkey) \<notin> set given \<longrightarrow> last filtered = (lkey, rkey)))"
proof -
  let ?keep = "\<lambda>p. \<not> both_numeric_non_key ltable rtable lkey rkey p"
  let ?given = "if attr_corres = None \<or> the attr_corres = [] then auto_corres else the attr_corres"
  have shape: "corres_list = (if (lkey, rkey) \<in> set ?given then ?given else ?given @ [(lkey, rkey)])"
    using get_field_correspondence_list_shape [OF assms(3)] .
  have keep: "?keep (lkey, rkey)" by (simp add: both_numeric_non_key_def)
  have mem: "(lkey, rkey) \<in> set corres_list" using shape by (auto split: if_splits)
  have 1: "(lkey, rkey) \<in> set (filter ?keep corres_list)" using mem keep by simp
  have 2: "(lkey, rkey) \<notin> set ?given \<longrightarrow> last (filter ?keep corres_list) = (lkey, rkey)"
  proof
    assume "(lkey, rkey) \<notin> set ?given"
    with shape have "corres_list = ?given @ [(lkey, rkey)]" by simp
    then have "filter ?keep corres_list = filter ?keep ?given @ [(lkey, rkey)]"
      using keep by simp
    then show "last (filter ?keep corres_list) = (lkey, rkey)" by simp
  qed
  show ?thesis
    unfolding Let_def using filter_corres_list_eq [OF assms(1,2,4), of lkey rkey] 1 2 by simp
qed


theorem filter_corres_list_key_pair_witness:
  "filter_corres_list example_table example_table ''id'' ''id''
     (build_col_name_index_dict example_table) (build_col_name_index_dict example_table)
     [(''name'', ''name''), (''age'', ''age''), (''id'', ''id'')]
     = Inr [(''name'', ''name''), (''id'', ''id'')]
   \<and> (''id'', ''id'') \<in> set [(''name'', ''name''), (''id'', ''id'')]
   \<and> last [(''name'', ''name''), (''id'', ''id'')] = (''id'', ''id'')"
proof -
  have h1: "length (dtypes example_table) = length (columns example_table)"
    by (simp add: example_table_def)
  have h3: "get_field_correspondence_list [] ''id'' ''id''
              (Some [(''name'', ''name''), (''age'', ''age'')])
            = Inr [(''name'', ''name''), (''age'', ''age''), (''id'', ''id'')]"
    by code_simp
  have h4: "list_all (\<lambda>p. fst p \<in> set (columns example_table) \<and> snd p \<in> set (columns example_table))
              [(''name'', ''name''), (''age'', ''age''), (''id'', ''id'')]"
    by (simp add: example_table_def)
  have f: "filter (\<lambda>p. \<not> both_numeric_non_key example_table example_table ''id'' ''id'' p)
             [(''name'', ''name''), (''age'', ''age''), (''id'', ''id'')]
           = [(''name'', ''name''), (''id'', ''id'')]"
    by code_simp
  show ?thesis
    using filter_corres_list_key_pair [OF h1 h1 h3 h4] unfolding Let_def f by simp
qed

theorem key_pair_not_last_counterexample:
  "get_field_correspondence_list [] ''id'' ''id'' (Some [(''id'', ''id''), (''name'', ''name'')])
     = Inr [(''id'', ''id''), (''name'', ''name'')]
   \<and> filter_corres_list example_table example_table ''id'' ''id''
       (build_col_name_index_dict example_table) (build_col_name_index_dict example_table)
       [(''id'', ''id''), (''name'', ''name'')]
     = Inr [(''id'', ''id''), (''name'', ''name'')]
   \<and> last [(''id'', ''id''), (''name'', ''name'')] \<noteq> (''id'', ''id'')
   \<and> get_field_correspondence_list [] ''id'' ''id'' (Some [(''id'', ''age'')])
     = Inr [(''id'', ''age''), (''id'', ''id'')]
   \<and> filter_corres_list example_table example_table ''id'' ''id''
       (build_col_name_index_dict example_table) (build_col_name_index_dict example_table)
       [(''id'', ''age''), (''id'', ''id'')]
     = Inr [(''id'', ''age''), (''id'', ''id'')]"
  by code_simp




text \<open>
  C5. For \<open>n_jobs \<noteq> 0\<close> and \<open>n_configs\<close> in \<open>{-2, -1} \<union> [1, \<infinity>)\<close>, the resolved
  configuration count is the total \<open>N\<close> when \<open>n_configs = -2\<close>; \<open>P + 1 + n_jobs\<close> when
  \<open>n_configs = -1\<close> and \<open>n_jobs < 0\<close>; \<open>n_jobs\<close> when \<open>n_configs = -1\<close> and
  \<open>n_jobs > 0\<close>; the given \<open>n_configs\<close> otherwise; in every case clamped so that it does
  not exceed \<open>N\<close>.
\<close>

theorem get_config_num_resolved:
  assumes "n_jobs \<noteq> 0" and "n_configs = - 2 \<or> n_configs = - 1 \<or> 1 \<le> n_configs"
  shows "get_config_num P n_jobs n_configs N =
           Inr (min (if n_configs = - 2 then N
                     else if n_configs = - 1 \<and> n_jobs < 0 then P + 1 + n_jobs
                     else if n_configs = - 1 \<and> 0 < n_jobs then n_jobs
                     else n_configs) N)"
  using assms by (auto simp: get_config_num_def Let_def min_def)

theorem get_config_num_resolved_witness:
  "get_config_num 8 (- 2) (- 1) 20 = Inr 7 \<and> get_config_num 8 3 (- 2) 20 = Inr 20
    \<and> get_config_num 8 3 (- 1) 20 = Inr 3 \<and> get_config_num 8 3 50 20 = Inr 20"
  using get_config_num_resolved [of "- 2" "- 1" 8 20]
    get_config_num_resolved [of 3 "- 2" 8 20]
    get_config_num_resolved [of 3 "- 1" 8 20]
    get_config_num_resolved [of 3 50 8 20]
  by simp

text \<open>
  C6. Let \<open>toks\<close> be the token strings of all the records of both tables, occurrence by
  occurrence, \<open>freq t\<close> the number of occurrences of \<open>t\<close> in it, and \<open>V\<close> the list of
  the distinct tokens sorted ascending by \<open>(freq t, t)\<close>, strings compared
  lexicographically. The sorted token list of the code is \<open>V\<close>; \<open>order_dict\<close> maps a
  token to its position in \<open>V\<close> and \<open>token_index_dict\<close> a position to its token; the
  tokens that have a rank are those of \<open>toks\<close>, the ranks are exactly the numbers below
  \<open>|V|\<close>, and the rank of one token is smaller than that of another exactly when its
  \<open>(freq, string)\<close> is.
\<close>

theorem global_token_order_ranks:
  "(let toks = concat (map (map fst) (lrecord_list @ rrecord_list));
        freq = count_list toks;
        V = sort_key (\<lambda>t. (freq t, t)) (remdups toks);
        order_dict = fst (build_global_token_order lrecord_list rrecord_list);
        token_index_dict = snd (build_global_token_order lrecord_list rrecord_list)
    in global_token_list lrecord_list rrecord_list = V
       \<and> (\<forall>t i. (order_dict t = Some i) = (i < length V \<and> V ! i = t))
       \<and> (\<forall>t i. (token_index_dict i = Some t) = (i < length V \<and> V ! i = t))
       \<and> dom order_dict = set toks
       \<and> ran order_dict = {0..<length V}
       \<and> (\<forall>s t i j. order_dict s = Some i \<and> order_dict t = Some j \<longrightarrow>
             (i < j) = ((freq s, s) < (freq t, t))))"
proof -
  define toks where "toks = concat (map (map fst) (lrecord_list @ rrecord_list))"
  define key where "key = (\<lambda>t. (count_list toks t, t))"
  define V where "V = sort_key key (remdups toks)"
  define od where "od = fst (build_global_token_order lrecord_list rrecord_list)"
  define tid where "tid = snd (build_global_token_order lrecord_list rrecord_list)"
  have V: "global_token_list lrecord_list rrecord_list = V"
    unfolding V_def key_def toks_def by (rule global_token_list_eq)
  have dV: "distinct V" unfolding V_def by (simp only: distinct_sort distinct_remdups)
  have sV: "set V = set toks" unfolding V_def by (simp only: set_sort set_remdups)
  have od: "(od t = Some i) = (i < length V \<and> V ! i = t)" for t i
    using build_global_token_order_lookup(1) [of lrecord_list rrecord_list t i] dV
    unfolding V od_def by simp
  have tid: "(tid i = Some t) = (i < length V \<and> V ! i = t)" for t i
    using build_global_token_order_lookup(2) [of lrecord_list rrecord_list i t] dV
    unfolding V tid_def by simp
  have dom: "dom od = set toks"
  proof -
    have "dom od = {t. \<exists>i. i < length V \<and> V ! i = t}" by (auto simp: dom_def od)
    also have "\<dots> = set V" by (auto simp: in_set_conv_nth)
    finally show ?thesis using sV by simp
  qed
  have ran: "ran od = {0..<length V}" by (auto simp: ran_def od)
  have srt: "sorted (map key V)" unfolding V_def by (rule sorted_sort_key)
  have mono: "key (V ! i) < key (V ! j)" if "i < j" "j < length V" for i j
  proof -
    have "key (V ! i) \<le> key (V ! j)"
      using sorted_nth_mono [OF srt, of i j] that by simp
    moreover have "V ! i \<noteq> V ! j" using dV that by (simp add: nth_eq_iff_index_eq)
    then have "key (V ! i) \<noteq> key (V ! j)" by (simp add: key_def)
    ultimately show ?thesis by simp
  qed
  have ord: "(i < j) = (key s < key t)" if "od s = Some i" "od t = Some j" for s t i j
  proof -
    from that have i: "i < length V" "V ! i = s" and j: "j < length V" "V ! j = t"
      by (simp_all add: od)
    show ?thesis
    proof (cases "i < j")
      case True
      then show ?thesis using mono [OF True j(1)] i j by simp
    next
      case False
      show ?thesis
      proof (cases "i = j")
        case True
        then show ?thesis using i j by auto
      next
        case ne: False
        with False have "j < i" by simp
        from mono [OF this i(1)] i j False show ?thesis by (simp add: not_less less_imp_le)
      qed
    qed
  qed
  have "global_token_list lrecord_list rrecord_list = V
       \<and> (\<forall>t i. (od t = Some i) = (i < length V \<and> V ! i = t))
       \<and> (\<forall>t i. (tid i = Some t) = (i < length V \<and> V ! i = t))
       \<and> dom od = set toks
       \<and> ran od = {0..<length V}
       \<and> (\<forall>s t i j. od s = Some i \<and> od t = Some j \<longrightarrow> (i < j) = (key s < key t))"
  proof (intro conjI allI impI)
    show "global_token_list lrecord_list rrecord_list = V" by (rule V)
    show "(od t = Some i) = (i < length V \<and> V ! i = t)" for t i by (rule od)
    show "(tid i = Some t) = (i < length V \<and> V ! i = t)" for t i by (rule tid)
    show "dom od = set toks" by (rule dom)
    show "ran od = {0..<length V}" by (rule ran)
    show "(i < j) = (key s < key t)" if "od s = Some i \<and> od t = Some j" for s t i j
      using that ord [of s i t j] by simp
  qed
  then show ?thesis unfolding Let_def V_def key_def toks_def od_def tid_def .
qed


theorem global_token_order_ranks_witness:
  "global_token_list [[(''b'', 0), (''a'', 0)]] [[(''a'', 0)]] = [''b'', ''a'']
   \<and> fst (build_global_token_order [[(''b'', 0), (''a'', 0)]] [[(''a'', 0)]]) ''b'' = Some 0
   \<and> fst (build_global_token_order [[(''b'', 0), (''a'', 0)]] [[(''a'', 0)]]) ''a'' = Some 1
   \<and> snd (build_global_token_order [[(''b'', 0), (''a'', 0)]] [[(''a'', 0)]]) 1 = Some ''a''
   \<and> ran (fst (build_global_token_order [[(''b'', 0), (''a'', 0)]] [[(''a'', 0)]])) = {0..<2}"
proof -
  have v: "sort_key (\<lambda>t. (count_list (concat (map (map fst)
                ([[(''b'', 0::nat), (''a'', 0)]] @ [[(''a'', 0)]]))) t, t))
             (remdups (concat (map (map fst) ([[(''b'', 0::nat), (''a'', 0)]] @ [[(''a'', 0)]]))))
           = [''b'', ''a'']"
    by code_simp
  note t = global_token_order_ranks [of "[[(''b'', 0), (''a'', 0)]]" "[[(''a'', 0)]]",
      unfolded Let_def v]
  from t show ?thesis by (simp add: numeral_2_eq_2)
qed



text \<open>
  C8. When the candidate set has no rows, \<^verbatim>\<open>_index_candidate_set\<close> returns the
  empty mapping, whatever the metadata lookup and the metadata validation would do: it
  calls neither, so an empty candidate set raises no metadata error even when both would
  fail on it.
\<close>

theorem index_candidate_set_empty:
  assumes "num_records candidate_set = 0"
  shows "index_candidate_set get_metadata validate_metadata candidate_set
           lrecord_id_to_index_map rrecord_id_to_index_map = Inr Map.empty"
  using assms by (simp add: index_candidate_set_def)

theorem index_candidate_set_empty_witness:
  "num_records \<lparr>columns = [], dtypes = [], col_values = [], num_records = 0\<rparr> = 0
   \<and> index_candidate_set (\<lambda>c. Inl KeyError) (\<lambda>c md. Inl AssertionError)
       \<lparr>columns = [], dtypes = [], col_values = [], num_records = 0\<rparr>
       [IntV 1 \<mapsto> 0] [IntV 7 \<mapsto> 0] = Inr Map.empty
   \<and> index_candidate_set (\<lambda>c. Inl KeyError) (\<lambda>c md. Inl AssertionError)
       \<lparr>columns = [''_id''], dtypes = [Numeric], col_values = [[IntV 0]], num_records = 1\<rparr>
       [IntV 1 \<mapsto> 0] [IntV 7 \<mapsto> 0] = Inl KeyError"
  using index_candidate_set_empty
    [where candidate_set = "\<lparr>columns = [], dtypes = [], col_values = [], num_records = 0\<rparr>"
      and get_metadata = "\<lambda>c. Inl KeyError" and validate_metadata = "\<lambda>c md. Inl AssertionError"
      and lrecord_id_to_index_map = "[IntV 1 \<mapsto> 0]"
      and rrecord_id_to_index_map = "[IntV 7 \<mapsto> 0]"]
  by (simp add: index_candidate_set_def)

text \<open>
  C9. When the list of result triples is empty, \<^verbatim>\<open>_assemble_topk_table\<close> returns
  (provided the keys are columns of their tables, as they are in
  \<^verbatim>\<open>debug_blocker\<close>; otherwise \<^verbatim>\<open>remove\<close> raises a ValueError) the empty
  DataFrame, which has no rows and no columns, so none of the \<^verbatim>\<open>_id\<close>,
  \<^verbatim>\<open>ltable_\<close> and \<^verbatim>\<open>rtable_\<close> columns; no column names are assigned and the
  catalog is left as it was, \<^verbatim>\<open>set_candset_properties\<close> not being called.
\<close>

theorem assemble_topk_table_empty:
  "assemble_topk_table set_candset_properties catalog [] ltable rtable lkey rkey =
     (if lkey \<in> set (columns ltable) \<and> rkey \<in> set (columns rtable)
      then Inr (\<lparr>df_columns = [], df_rows = []\<rparr>, catalog)
      else Inl ValueError)"
  by (simp add: assemble_topk_table_def list_remove_def pd_DataFrame_def Let_def)

theorem assemble_topk_table_empty_witness:
  "assemble_topk_table (\<lambda>df k fl fr lt rt c. Inr (Suc c)) (0::nat) []
     shop_table shop_table ''id'' ''id'' = Inr (\<lparr>df_columns = [], df_rows = []\<rparr>, 0)
   \<and> assemble_topk_table (\<lambda>df k fl fr lt rt c. Inr (Suc c)) (0::nat) [(1, 0, 1)]
     key_only_table key_only_table ''id'' ''id''
     = Inr (\<lparr>df_columns = [Name ''_id'', Name ''ltable_id'', Name ''rtable_id''],
            df_rows = [[IntV 0, IntV 1, IntV 2]]\<rparr>, 1)"
proof -
  have "assemble_topk_table (\<lambda>df k fl fr lt rt c. Inr (Suc c)) (0::nat) []
     shop_table shop_table ''id'' ''id'' = Inr (\<lparr>df_columns = [], df_rows = []\<rparr>, 0)"
    by (subst assemble_topk_table_empty) (simp add: shop_table_def)
  moreover have "assemble_topk_table (\<lambda>df k fl fr lt rt c. Inr (Suc c)) (0::nat) [(1, 0, 1)]
     key_only_table key_only_table ''id'' ''id''
     = Inr (\<lparr>df_columns = [Name ''_id'', Name ''ltable_id'', Name ''rtable_id''],
            df_rows = [[IntV 0, IntV 1, IntV 2]]\<rparr>, 1)"
    by code_simp
  ultimately show ?thesis by simp
qed

text \<open>
  C10. Whenever \<open>verbose\<close> is not a \<^verbatim>\<open>bool\<close>, \<^verbatim>\<open>debug_blocker\<close> raises
  an AssertionError in its input validation: the result does not depend on \<open>rest\<close>, the
  part of the function that processes the tables.
\<close>

theorem debug_blocker_verbose_not_bool:
  assumes "\<not> isinstance verbose TBool"
  shows "validate_types ltable rtable candidate_set output_size attr_corres verbose
           = Inl AssertionError
         \<and> debug_blocker rest candidate_set ltable rtable output_size attr_corres verbose
           n_jobs n_configs = Inl AssertionError"
  using validate_types_not_bool [OF assms] by (simp add: debug_blocker_def)

theorem debug_blocker_verbose_not_bool_witness:
  "\<not> isinstance (PyInt 1) TBool \<and>
   debug_blocker (\<lambda>c l r os ac v nj nc. Inr True)
     (PyDataFrame \<lparr>columns = [], dtypes = [], col_values = [], num_records = 0\<rparr>)
     (PyDataFrame \<lparr>columns = [''id''], dtypes = [Numeric], col_values = [[IntV 1]], num_records = 1\<rparr>)
     (PyDataFrame \<lparr>columns = [''id''], dtypes = [Numeric], col_values = [[IntV 1]], num_records = 1\<rparr>)
     (PyInt 200) PyNone (PyInt 1) 1 1 = Inl AssertionError"
  using debug_blocker_verbose_not_bool [where verbose = "PyInt 1"
      and rest = "\<lambda>c l r os ac v nj nc. Inr True"
      and candidate_set = "PyDataFrame \<lparr>columns = [], dtypes = [], col_values = [], num_records = 0\<rparr>"
      and ltable = "PyDataFrame \<lparr>columns = [''id''], dtypes = [Numeric], col_values = [[IntV 1]], num_records = 1\<rparr>"
      and rtable = "PyDataFrame \<lparr>columns = [''id''], dtypes = [Numeric], col_values = [[IntV 1]], num_records = 1\<rparr>"
      and output_size = "PyInt 200" and attr_corres = PyNone and n_jobs = 1 and n_configs = 1]
  by simp

end
